theory Spec2Isabelle
  imports Complex_Main "HOL-Library.Multiset"
begin

section \<open>Values, errors and the outside world\<close>

text \<open>
  The program is \<^verbatim>\<open>sync.py\<close>: one master VLC player and its slaves, polled and corrected
  over VLC's HTTP interface. A status is whatever \<^verbatim>\<open>r.json()\<close> returned, so the model
  has a datatype of JSON values as Python sees them; a dict is the list of its items, each
  key once. Python floats are modelled as \<^typ>\<open>real\<close>: rounding, infinities and NaN are
  outside the model. What is inside it is the one conversion that raises, \<^verbatim>\<open>float\<close> of an
  integer beyond the range of a double.
\<close>

datatype pyval =
    PNone
  | PBool bool
  | PInt int
  | PFloat real
  | PStr string
  | PList "pyval list"
  | PDict "(string \<times> pyval) list"

datatype error = ValueError | AttributeError | IndexError

datatype request =
    Status_query string int
  | Seek_cmd string int int

text \<open>
  What the program does not define itself is a parameter: the builtins \<^verbatim>\<open>float\<close> and
  \<^verbatim>\<open>int\<close> on strings (\<open>None\<close> where Python raises \<^verbatim>\<open>ValueError\<close>), the two HTTP exchanges
  (\<open>None\<close> or \<open>False\<close> where \<^verbatim>\<open>requests.get\<close>, \<^verbatim>\<open>raise_for_status\<close> or \<^verbatim>\<open>json\<close>
  raises) acting on a world \<open>'w\<close>, the clock, and the thread pool's scheduling:
  \<open>pool_pick w n\<close> says which of the \<open>n\<close> requests still pending goes out next (it is
  taken modulo \<open>n\<close>), so that every order of the requests is the behaviour of some pool.
\<close>

record 'w env =
  float_of_str :: "string \<Rightarrow> real option"
  int_of_str :: "string \<Rightarrow> int option"
  http_status :: "string \<Rightarrow> int \<Rightarrow> string \<Rightarrow> 'w \<Rightarrow> pyval option \<times> 'w"
  http_seek :: "string \<Rightarrow> int \<Rightarrow> string \<Rightarrow> int \<Rightarrow> 'w \<Rightarrow> bool \<times> 'w"
  perf_counter :: "'w \<Rightarrow> real"
  pool_pick :: "'w \<Rightarrow> nat \<Rightarrow> nat"

text \<open>The state threaded through a run: the world, and the requests sent so far, oldest first.\<close>

record 'w net =
  world :: 'w
  sent :: "request list"

definition VLC_PASSWORD :: string where
  "VLC_PASSWORD = ''secretpw''"

definition DEFAULT_PORT :: int where
  "DEFAULT_PORT = 8080"

section \<open>Python's builtins on values\<close>

text \<open>
  \<^verbatim>\<open>float(n)\<close> raises \<^verbatim>\<open>OverflowError\<close> on an integer that rounds to \<open>2\<^sup>1\<^sup>0\<^sup>2\<^sup>4\<close> or beyond:
  the largest double is \<open>2\<^sup>1\<^sup>0\<^sup>2\<^sup>4 - 2\<^sup>9\<^sup>7\<^sup>1\<close>, and from half a step above it the conversion
  rounds up.
\<close>

definition FLOAT_INT_LIMIT :: int where
  "FLOAT_INT_LIMIT = 2 ^ 1024 - 2 ^ 970"

text \<open>
  \<^verbatim>\<open>float(v)\<close>; \<open>None\<close> where Python raises \<^verbatim>\<open>TypeError\<close>, \<^verbatim>\<open>ValueError\<close> or
  \<^verbatim>\<open>OverflowError\<close>.
\<close>

fun py_float :: "'w env \<Rightarrow> pyval \<Rightarrow> real option" where
  "py_float E PNone = None"
| "py_float E (PBool b) = Some (if b then 1 else 0)"
| "py_float E (PInt n) = (if \<bar>n\<bar> < FLOAT_INT_LIMIT then Some (of_int n) else None)"
| "py_float E (PFloat x) = Some x"
| "py_float E (PStr s) = float_of_str E s"
| "py_float E (PList xs) = None"
| "py_float E (PDict kv) = None"

text \<open>The truth value of \<^verbatim>\<open>if v:\<close>.\<close>

fun truthy :: "pyval \<Rightarrow> bool" where
  "truthy PNone = False"
| "truthy (PBool b) = b"
| "truthy (PInt n) = (n \<noteq> 0)"
| "truthy (PFloat x) = (x \<noteq> 0)"
| "truthy (PStr s) = (s \<noteq> [])"
| "truthy (PList xs) = (xs \<noteq> [])"
| "truthy (PDict kv) = (kv \<noteq> [])"

text \<open>\<^verbatim>\<open>d.get(k)\<close>: the value, or \<^verbatim>\<open>None\<close> for a missing key.\<close>

definition dict_get :: "(string \<times> pyval) list \<Rightarrow> string \<Rightarrow> pyval" where
  "dict_get kv k = (case map_of kv k of None \<Rightarrow> PNone | Some v \<Rightarrow> v)"

text \<open>\<^verbatim>\<open>int(x)\<close> on a float truncates towards zero.\<close>

definition py_int :: "real \<Rightarrow> int" where
  "py_int x = (if 0 \<le> x then \<lfloor>x\<rfloor> else \<lceil>x\<rceil>)"

section \<open>Helpers\<close>

definition parse_host_port :: "'w env \<Rightarrow> string \<Rightarrow> error + (string \<times> int)" where
  "parse_host_port E host_str =
     (if CHR '':'' \<in> set host_str then
        (let host = takeWhile (\<lambda>c. c \<noteq> CHR '':'') host_str;
             port_str = drop 1 (dropWhile (\<lambda>c. c \<noteq> CHR '':'') host_str)
         in case int_of_str E port_str of
              None \<Rightarrow> Inl ValueError
            | Some p \<Rightarrow> Inr (host, p))
      else Inr (host_str, DEFAULT_PORT))"

text \<open>The comprehension \<^verbatim>\<open>[parse_host_port(h) for h in host_strs]\<close>: the first raise ends it.\<close>

fun parse_hosts :: "'w env \<Rightarrow> string list \<Rightarrow> error + (string \<times> int) list" where
  "parse_hosts E [] = Inr []"
| "parse_hosts E (h # hs) =
     (case parse_host_port E h of
        Inl e \<Rightarrow> Inl e
      | Inr hp \<Rightarrow> (case parse_hosts E hs of Inl e \<Rightarrow> Inl e | Inr hps \<Rightarrow> Inr (hp # hps)))"

text \<open>Every exception becomes \<^verbatim>\<open>None\<close>, as does a JSON \<^verbatim>\<open>null\<close> body.\<close>

definition get_vlc_status :: "'w env \<Rightarrow> string \<Rightarrow> int \<Rightarrow> string \<Rightarrow> 'w net \<Rightarrow> pyval \<times> 'w net" where
  "get_vlc_status E host port password s =
     (case http_status E host port password (world s) of
        (r, w') \<Rightarrow>
          ((case r of None \<Rightarrow> PNone | Some v \<Rightarrow> v),
           s\<lparr>world := w', sent := sent s @ [Status_query host port]\<rparr>))"

definition timed_status_request ::
  "'w env \<Rightarrow> string \<Rightarrow> int \<Rightarrow> string \<Rightarrow> 'w net \<Rightarrow> (pyval \<times> real) \<times> 'w net" where
  "timed_status_request E host port password s =
     (let t0 = perf_counter E (world s) in
      case get_vlc_status E host port password s of
        (status, s') \<Rightarrow>
          (let t1 = perf_counter E (world s') in ((status, (t1 - t0) * 1000), s')))"

text \<open>
  \<^verbatim>\<open>status.get\<close> exists on a dict only: any other value that is not \<^verbatim>\<open>None\<close> raises
  \<^verbatim>\<open>AttributeError\<close>, outside both \<^verbatim>\<open>try\<close> blocks. Inside them every exception is
  swallowed and the next rule is tried.
\<close>

definition extract_precise_time :: "'w env \<Rightarrow> pyval \<Rightarrow> error + real option" where
  "extract_precise_time E status =
     (case status of
        PNone \<Rightarrow> Inr None
      | PDict kv \<Rightarrow>
          (let pos = dict_get kv ''position'';
               length = dict_get kv ''length'';
               product =
                 (if pos \<noteq> PNone \<and> truthy length then
                    (case py_float E pos of
                       None \<Rightarrow> None
                     | Some p \<Rightarrow> (case py_float E length of None \<Rightarrow> None | Some l \<Rightarrow> Some (p * l)))
                  else None)
           in case product of
                Some r \<Rightarrow> Inr (Some r)
              | None \<Rightarrow>
                  (let t = dict_get kv ''time''
                   in if t \<noteq> PNone then Inr (py_float E t) else Inr None))
      | _ \<Rightarrow> Inl AttributeError)"

text \<open>The \<^verbatim>\<open>delta\<close> argument is overwritten before its only use.\<close>

definition seek_vlc_to_time ::
  "'w env \<Rightarrow> string \<Rightarrow> int \<Rightarrow> string \<Rightarrow> real \<Rightarrow> real \<Rightarrow> 'w net \<Rightarrow> (bool \<times> int) \<times> 'w net" where
  "seek_vlc_to_time E host port password time_seconds delta s =
     (let delta = (0::real);
          target = py_int (max (time_seconds + delta) 0)
      in case http_seek E host port password target (world s) of
           (ok, w') \<Rightarrow>
             ((if ok then (True, target) else (False, target)),
              s\<lparr>world := w', sent := sent s @ [Seek_cmd host port target]\<rparr>))"

section \<open>Delay detection\<close>

text \<open>
  The thread pool runs one \<^verbatim>\<open>timed_status_request\<close> per host, in no order that the
  program fixes, and each result is stored at the host's index in \<^verbatim>\<open>statuses\<close> and
  \<^verbatim>\<open>rtt_ms\<close> (here one list of pairs). \<open>run_pool\<close> takes the indices still pending and lets
  \<open>pool_pick\<close> choose the next one until none is left, which is where \<^verbatim>\<open>as_completed\<close>
  has handed over every future. A request is one step: the model has every order of the
  requests, not their overlap in time.
\<close>

function run_pool ::
  "'w env \<Rightarrow> (string \<times> int) list \<Rightarrow> nat list \<Rightarrow> (pyval \<times> real) list \<Rightarrow> 'w net
     \<Rightarrow> (pyval \<times> real) list \<times> 'w net" where
  "run_pool E parsed [] results s = (results, s)"
| "run_pool E parsed (j # js) results s =
     (let k = pool_pick E (world s) (Suc (length js)) mod Suc (length js);
          i = (j # js) ! k
      in case parsed ! i of
           (h, p) \<Rightarrow>
             (case timed_status_request E h p VLC_PASSWORD s of
                (r, s') \<Rightarrow>
                  run_pool E parsed (take k (j # js) @ drop (Suc k) (j # js))
                    (results[i := r]) s'))"
  by pat_completeness auto
termination
  by (relation "measure (\<lambda>(E, parsed, pending, results, s). length pending)") auto

definition poll_all :: "'w env \<Rightarrow> (string \<times> int) list \<Rightarrow> 'w net \<Rightarrow> (pyval \<times> real) list \<times> 'w net" where
  "poll_all E parsed s =
     run_pool E parsed [0..<length parsed] (replicate (length parsed) (PNone, 0)) s"

text \<open>
  The loop over the slaves, \<^verbatim>\<open>for i in range(1, len(parsed))\<close>, as a recursion over the
  indices still to visit; \<^verbatim>\<open>continue\<close> leaves \<^verbatim>\<open>delays[i]\<close> as it was.
\<close>

fun slave_delays :: "'w env \<Rightarrow> pyval list \<Rightarrow> real \<Rightarrow> nat list \<Rightarrow> real list \<Rightarrow> error + real list" where
  "slave_delays E statuses master_time [] delays = Inr delays"
| "slave_delays E statuses master_time (i # is) delays =
     (case extract_precise_time E (statuses ! i) of
        Inl e \<Rightarrow> Inl e
      | Inr None \<Rightarrow> slave_delays E statuses master_time is delays
      | Inr (Some slave_time) \<Rightarrow>
          (let drift = master_time - slave_time
           in slave_delays E statuses master_time is (delays[i := drift])))"

text \<open>The result \<^verbatim>\<open>(None, None)\<close> is \<open>None\<close>; \<^verbatim>\<open>(delays, rtt_ms)\<close> is \<open>Some\<close> of the pair.\<close>

definition detect_delays ::
  "'w env \<Rightarrow> string list \<Rightarrow> 'w net \<Rightarrow> (error + (real list \<times> real list) option) \<times> 'w net" where
  "detect_delays E host_strs s =
     (if host_strs = [] then (Inr None, s)
      else
        (case parse_hosts E host_strs of
           Inl e \<Rightarrow> (Inl e, s)
         | Inr parsed \<Rightarrow>
             (case poll_all E parsed s of
                (results, s') \<Rightarrow>
                  (let statuses = map fst results;
                       rtt_ms = map snd results
                   in case extract_precise_time E (statuses ! 0) of
                        Inl e \<Rightarrow> (Inl e, s')
                      | Inr None \<Rightarrow> (Inr None, s')
                      | Inr (Some master_time) \<Rightarrow>
                          (case slave_delays E statuses master_time [1..<length parsed]
                                  (replicate (length parsed) 0) of
                             Inl e \<Rightarrow> (Inl e, s')
                           | Inr delays \<Rightarrow> (Inr (Some (delays, rtt_ms)), s'))))))"

section \<open>Sync logic\<close>

definition first_run :: "real list \<Rightarrow> bool" where
  "first_run delays = list_all (\<lambda>d. \<bar>d\<bar> < 1 / 1000000) delays"

text \<open>
  The loop \<^verbatim>\<open>for i in range(1, len(parsed))\<close> of \<^verbatim>\<open>sync_once\<close>. \<^verbatim>\<open>delays[i]\<close> raises
  \<^verbatim>\<open>IndexError\<close> past the end of \<^verbatim>\<open>delays\<close>; the seeks sent before that stay sent.
\<close>

fun seek_slaves ::
  "'w env \<Rightarrow> (string \<times> int) list \<Rightarrow> real list \<Rightarrow> real \<Rightarrow> bool \<Rightarrow> real \<Rightarrow> nat list \<Rightarrow> 'w net
     \<Rightarrow> (error + unit) \<times> 'w net" where
  "seek_slaves E parsed delays drift_threshold fr master_time [] s = (Inr (), s)"
| "seek_slaves E parsed delays drift_threshold fr master_time (i # is) s =
     (case parsed ! i of
        (host, port) \<Rightarrow>
          (if length delays \<le> i then (Inl IndexError, s)
           else
             (let drift = delays ! i
              in if \<not> fr \<and> \<bar>drift\<bar> < drift_threshold then
                   seek_slaves E parsed delays drift_threshold fr master_time is s
                 else
                   (case seek_vlc_to_time E host port VLC_PASSWORD master_time drift s of
                      (r, s') \<Rightarrow>
                        seek_slaves E parsed delays drift_threshold fr master_time is s'))))"

definition sync_once ::
  "'w env \<Rightarrow> string list \<Rightarrow> real list \<Rightarrow> real \<Rightarrow> 'w net \<Rightarrow> (error + real list) \<times> 'w net" where
  "sync_once E host_strs delays drift_threshold s =
     (case parse_hosts E host_strs of
        Inl e \<Rightarrow> (Inl e, s)
      | Inr parsed \<Rightarrow>
          (case parsed of
             [] \<Rightarrow> (Inl IndexError, s)
           | (master_host, master_port) # _ \<Rightarrow>
               (case get_vlc_status E master_host master_port VLC_PASSWORD s of
                  (status, s1) \<Rightarrow>
                    (case extract_precise_time E status of
                       Inl e \<Rightarrow> (Inl e, s1)
                     | Inr None \<Rightarrow> (Inr delays, s1)
                     | Inr (Some master_time) \<Rightarrow>
                         (case seek_slaves E parsed delays drift_threshold (first_run delays)
                                 master_time [1..<length parsed] s1 of
                            (Inl e, s2) \<Rightarrow> (Inl e, s2)
                          | (Inr u, s2) \<Rightarrow>
                              (case detect_delays E host_strs s2 of
                                 (Inl e, s3) \<Rightarrow> (Inl e, s3)
                               | (Inr None, s3) \<Rightarrow> (Inr delays, s3)
                               | (Inr (Some (new_delays, rtt_ms)), s3) \<Rightarrow>
                                   (Inr new_delays, s3)))))))"

section \<open>Main\<close>

text \<open>
  \<^verbatim>\<open>main\<close> starts from \<^verbatim>\<open>[0.0] * len(hosts)\<close> and, with an interval, feeds each cycle's
  result to the next one for ever. \<open>run_cycles\<close> is the first \<open>n\<close> cycles of that loop
  from a given state; the sleep between two cycles is not modelled.
\<close>

definition initial_delays :: "string list \<Rightarrow> real list" where
  "initial_delays hosts = replicate (length hosts) 0"

fun run_cycles ::
  "'w env \<Rightarrow> string list \<Rightarrow> real \<Rightarrow> nat \<Rightarrow> real list \<Rightarrow> 'w net \<Rightarrow> (error + real list) \<times> 'w net" where
  "run_cycles E hosts drift_threshold 0 delays s = (Inr delays, s)"
| "run_cycles E hosts drift_threshold (Suc n) delays s =
     (case sync_once E hosts delays drift_threshold s of
        (Inl e, s') \<Rightarrow> (Inl e, s')
      | (Inr delays', s') \<Rightarrow> run_cycles E hosts drift_threshold n delays' s')"

section \<open>The specification's side\<close>

text \<open>
  The specification's snapshot has three optional floats. \<open>as_number\<close> reads a field of
  a status as such a float: a JSON number is one when it is a float or an integer within
  the range of a double, and an integer beyond that range is no float, so the field reads
  as absent. \<open>spec_extractTime\<close> is the priority policy in the specification's words: the
  product when both are there and the length is not zero, else the coarse time, else
  nothing.
\<close>

definition as_number :: "pyval \<Rightarrow> real option" where
  "as_number v =
     (case v of
        PInt n \<Rightarrow> if \<bar>n\<bar> < FLOAT_INT_LIMIT then Some (of_int n) else None
      | PFloat x \<Rightarrow> Some x
      | _ \<Rightarrow> None)"

definition number_or_absent :: "pyval \<Rightarrow> bool" where
  "number_or_absent v =
     (case v of PNone \<Rightarrow> True | PInt n \<Rightarrow> True | PFloat x \<Rightarrow> True | _ \<Rightarrow> False)"

definition spec_extractTime :: "real option \<Rightarrow> real option \<Rightarrow> real option \<Rightarrow> real option" where
  "spec_extractTime position length_sec time_sec =
     (case (position, length_sec) of
        (Some p, Some l) \<Rightarrow> if l \<noteq> 0 then Some (p * l) else time_sec
      | _ \<Rightarrow> time_sec)"

text \<open>The invariant of the drift state: as long as the host list, with \<open>0\<close> for the master.\<close>

definition drift_state_ok :: "string list \<Rightarrow> real list \<Rightarrow> bool" where
  "drift_state_ok hosts delays =
     (length delays = length hosts \<and> (case delays of [] \<Rightarrow> True | d # _ \<Rightarrow> d = 0))"

text \<open>
  The requests of a round of status queries over the parsed hosts, and the seek requests
  to the slaves at the given indices, as they appear in \<open>sent\<close>.
\<close>

definition queries :: "(string \<times> int) list \<Rightarrow> request list" where
  "queries parsed = map (\<lambda>(h, p). Status_query h p) parsed"

definition seeks :: "(string \<times> int) list \<Rightarrow> real \<Rightarrow> nat list \<Rightarrow> request list" where
  "seeks parsed master_time is =
     map (\<lambda>i. Seek_cmd (fst (parsed ! i)) (snd (parsed ! i)) (max \<lfloor>master_time\<rfloor> 0)) is"

section \<open>A small installation for the examples\<close>

text \<open>
  The master \<^verbatim>\<open>m\<close> always answers \<^verbatim>\<open>{"time": 42}\<close>, the slave \<^verbatim>\<open>s\<close> never answers a status
  query, \<^verbatim>\<open>t\<close> answers \<^verbatim>\<open>{"position": 0.5, "length": 80}\<close>, \<^verbatim>\<open>j\<close> answers the JSON list
  \<^verbatim>\<open>[1, 2]\<close>, and every other host answers \<^verbatim>\<open>{}\<close>. Seeks succeed everywhere but on \<^verbatim>\<open>s\<close>.
  The world has no state of its own. The pool of \<open>lab\<close> sends its requests in the order of
  the host list, the pool of \<open>lab_late\<close> in the opposite order.
\<close>

definition lab_status :: "string \<Rightarrow> pyval option" where
  "lab_status host =
     (if host = ''m'' then Some (PDict [(''time'', PInt 42)])
      else if host = ''s'' then None
      else if host = ''t'' then Some (PDict [(''position'', PFloat (1 / 2)), (''length'', PInt 80)])
      else if host = ''j'' then Some (PList [PInt 1, PInt 2])
      else Some (PDict []))"

definition lab :: "unit env" where
  "lab = \<lparr> float_of_str = (\<lambda>s. if s = ''0.5'' then Some (1 / 2) else None),
           int_of_str = (\<lambda>s. if s = ''9000'' then Some 9000 else None),
           http_status = (\<lambda>host port password w. (lab_status host, w)),
           http_seek = (\<lambda>host port password target w. (host \<noteq> ''s'', w)),
           perf_counter = (\<lambda>w. 0),
           pool_pick = (\<lambda>w n. 0) \<rparr>"

definition lab_late :: "unit env" where
  "lab_late = lab \<lparr> pool_pick := (\<lambda>w n. n - 1) \<rparr>"

definition net0 :: "unit net" where
  "net0 = \<lparr> world = (), sent = [] \<rparr>"

lemmas lab_simps =
  sync_once_def detect_delays_def parse_host_port_def DEFAULT_PORT_def get_vlc_status_def
  timed_status_request_def extract_precise_time_def dict_get_def first_run_def
  seek_vlc_to_time_def py_int_def lab_def lab_status_def net0_def Let_def
  initial_delays_def queries_def seeks_def poll_all_def lab_late_def FLOAT_INT_LIMIT_def

section \<open>Time extraction\<close>

lemma FLOAT_INT_LIMIT_pos: "0 < FLOAT_INT_LIMIT"
  by (simp add: FLOAT_INT_LIMIT_def)

lemma extract_numbers:
  assumes "number_or_absent p" and "number_or_absent l" and "number_or_absent t"
  shows "(case (if p \<noteq> PNone \<and> truthy l then
                 (case py_float E p of
                    None \<Rightarrow> None
                  | Some x \<Rightarrow> (case py_float E l of None \<Rightarrow> None | Some y \<Rightarrow> Some (x * y)))
               else None) of
           Some r \<Rightarrow> Inr (Some r)
         | None \<Rightarrow> if t \<noteq> PNone then Inr (py_float E t) else Inr None)
         = (Inr (spec_extractTime (as_number p) (as_number l) (as_number t)) :: error + real option)"
  using assms
  by (cases p; cases l; cases t)
    (simp_all add: number_or_absent_def as_number_def spec_extractTime_def FLOAT_INT_LIMIT_pos)

text \<open>
  C6. On a status whose \<^verbatim>\<open>position\<close>, \<^verbatim>\<open>length\<close> and \<^verbatim>\<open>time\<close> fields are JSON numbers where
  they are present, \<^verbatim>\<open>extract_precise_time\<close> is the priority policy on the floats those
  fields hold: position times length when both are present and the length is not zero,
  else the time field as a float, else absent. An integer that no double can hold has no
  float to be returned, and the code treats the field as if it were absent.
\<close>

theorem extract_precise_time_priority:
  assumes "number_or_absent (dict_get kv ''position'')"
    and "number_or_absent (dict_get kv ''length'')"
    and "number_or_absent (dict_get kv ''time'')"
  shows "extract_precise_time E (PDict kv) =
           Inr (spec_extractTime (as_number (dict_get kv ''position''))
                  (as_number (dict_get kv ''length'')) (as_number (dict_get kv ''time'')))"
  using extract_numbers [where E = E, OF assms] by (simp add: extract_precise_time_def Let_def)

text \<open>
  The specification's three examples: 0.5 of 120 seconds, a bare time of 42, and \<^verbatim>\<open>{}\<close>;
  then a position of \<open>2\<^sup>1\<^sup>0\<^sup>2\<^sup>4\<close>, which falls back to the time, and a time of \<open>2\<^sup>1\<^sup>0\<^sup>2\<^sup>4\<close>.
\<close>

theorem extract_precise_time_priority_witness:
  "extract_precise_time lab (PDict [(''position'', PFloat (1 / 2)), (''length'', PInt 120)])
     = Inr (Some 60)
   \<and> extract_precise_time lab (PDict [(''time'', PInt 42)]) = Inr (Some 42)
   \<and> extract_precise_time lab (PDict []) = Inr None
   \<and> extract_precise_time lab
         (PDict [(''position'', PInt (2 ^ 1024)), (''length'', PInt 2), (''time'', PInt 5)])
       = Inr (Some 5)
   \<and> extract_precise_time lab (PDict [(''time'', PInt (2 ^ 1024))]) = Inr None"
proof -
  have a: "number_or_absent (dict_get [(''position'', PFloat (1 / 2)), (''length'', PInt 120)] k)"
    and b: "number_or_absent (dict_get [(''time'', PInt 42)] k)"
    and c: "number_or_absent (dict_get [] k)"
    and d: "number_or_absent
              (dict_get [(''position'', PInt (2 ^ 1024)), (''length'', PInt 2), (''time'', PInt 5)] k)"
    and e: "number_or_absent (dict_get [(''time'', PInt (2 ^ 1024))] k)" for k
    by (simp_all add: dict_get_def number_or_absent_def)
  show ?thesis
    using extract_precise_time_priority [OF a a a, of lab]
      extract_precise_time_priority [OF b b b, of lab]
      extract_precise_time_priority [OF c c c, of lab]
      extract_precise_time_priority [OF d d d, of lab]
      extract_precise_time_priority [OF e e e, of lab]
    by (simp add: dict_get_def as_number_def spec_extractTime_def FLOAT_INT_LIMIT_def)
qed

lemma dict_get_filter:
  "k \<noteq> ''position'' \<Longrightarrow> k \<noteq> ''length'' \<Longrightarrow>
   dict_get (filter (\<lambda>(k, v). k \<noteq> ''position'' \<and> k \<noteq> ''length'') kv) k = dict_get kv k"
  by (induction kv) (auto simp: dict_get_def)

lemma dict_get_filter_out:
  "k = ''position'' \<or> k = ''length'' \<Longrightarrow>
   dict_get (filter (\<lambda>(k, v). k \<noteq> ''position'' \<and> k \<noteq> ''length'') kv) k = PNone"
  by (induction kv) (auto simp: dict_get_def)

text \<open>
  C10. When \<^verbatim>\<open>position\<close> is present and \<^verbatim>\<open>length\<close> is truthy but one of them does not
  convert to a float, \<^verbatim>\<open>extract_precise_time\<close> does not raise: it answers from the \<^verbatim>\<open>time\<close>
  field, exactly as it does on the status with \<^verbatim>\<open>position\<close> and \<^verbatim>\<open>length\<close> removed, and
  the answer is absent only when \<^verbatim>\<open>time\<close> is missing or does not convert either.
\<close>

theorem extract_precise_time_fallback:
  assumes "dict_get kv ''position'' \<noteq> PNone"
    and "truthy (dict_get kv ''length'')"
    and "py_float E (dict_get kv ''position'') = None \<or> py_float E (dict_get kv ''length'') = None"
  shows "extract_precise_time E (PDict kv) =
           Inr (if dict_get kv ''time'' = PNone then None else py_float E (dict_get kv ''time''))
         \<and> extract_precise_time E (PDict kv) =
             extract_precise_time E
               (PDict (filter (\<lambda>(k, v). k \<noteq> ''position'' \<and> k \<noteq> ''length'') kv))
         \<and> (extract_precise_time E (PDict kv) = Inr None) =
             (dict_get kv ''time'' = PNone \<or> py_float E (dict_get kv ''time'') = None)"
  using assms
  by (auto simp: extract_precise_time_def Let_def dict_get_filter dict_get_filter_out
      split: option.splits)

theorem extract_precise_time_fallback_witness:
  "extract_precise_time lab
     (PDict [(''position'', PStr ''abc''), (''length'', PInt 120), (''time'', PInt 42)])
     = Inr (Some 42)
   \<and> extract_precise_time lab (PDict [(''position'', PStr ''0.5''), (''length'', PList [PNone])])
     = Inr None"
proof -
  let ?a = "[(''position'', PStr ''abc''), (''length'', PInt 120), (''time'', PInt 42)]"
  let ?b = "[(''position'', PStr ''0.5''), (''length'', PList [PNone])]"
  have a: "dict_get ?a ''position'' \<noteq> PNone" "truthy (dict_get ?a ''length'')"
    "py_float lab (dict_get ?a ''position'') = None \<or> py_float lab (dict_get ?a ''length'') = None"
    by (simp_all add: dict_get_def lab_def)
  have b: "dict_get ?b ''position'' \<noteq> PNone" "truthy (dict_get ?b ''length'')"
    "py_float lab (dict_get ?b ''position'') = None \<or> py_float lab (dict_get ?b ''length'') = None"
    by (simp_all add: dict_get_def lab_def)
  show ?thesis
    using extract_precise_time_fallback [OF a] extract_precise_time_fallback [OF b]
    by (simp add: dict_get_def FLOAT_INT_LIMIT_def)
qed

section \<open>The seek command\<close>

lemma py_int_of_target: "py_int (max (t + 0) 0) = max \<lfloor>t\<rfloor> 0"
  by (simp add: py_int_def max_def) linarith

lemma py_int_clip: "max \<lfloor>t\<rfloor> 0 = max (py_int t) 0"
  by (simp add: py_int_def max_def)

lemma seek_vlc_to_time_eq:
  "seek_vlc_to_time E host port password t delta s =
     ((fst (http_seek E host port password (max \<lfloor>t\<rfloor> 0) (world s)), max \<lfloor>t\<rfloor> 0),
      s\<lparr>world := snd (http_seek E host port password (max \<lfloor>t\<rfloor> 0) (world s)),
        sent := sent s @ [Seek_cmd host port (max \<lfloor>t\<rfloor> 0)]\<rparr>)"
  unfolding seek_vlc_to_time_def Let_def py_int_of_target
  by (simp split: prod.splits)

text \<open>
  C5. For every target time, \<^verbatim>\<open>seek_vlc_to_time\<close> sends and returns the integer
  \<open>max \<lfloor>t\<rfloor> 0\<close>, which is also \<open>max\<close> of the truncation and \<open>0\<close> and is not negative;
  it returns that integer whatever the outcome of the request, and a target of \<open>-5\<close>
  gives \<open>0\<close>.
\<close>

theorem seek_target:
  "snd (fst (seek_vlc_to_time E host port password t delta s)) = max \<lfloor>t\<rfloor> 0
   \<and> max \<lfloor>t\<rfloor> 0 = max (py_int t) 0
   \<and> 0 \<le> snd (fst (seek_vlc_to_time E host port password t delta s))
   \<and> sent (snd (seek_vlc_to_time E host port password t delta s))
       = sent s @ [Seek_cmd host port (max \<lfloor>t\<rfloor> 0)]
   \<and> fst (fst (seek_vlc_to_time E host port password t delta s))
       = fst (http_seek E host port password (max \<lfloor>t\<rfloor> 0) (world s))
   \<and> snd (fst (seek_vlc_to_time E host port password (- 5) delta s)) = 0"
  using py_int_clip [of t] by (simp add: seek_vlc_to_time_eq)

text \<open>A seek that fails (on \<^verbatim>\<open>s\<close>) and one that succeeds (on \<^verbatim>\<open>t\<close>) return the same target.\<close>

theorem seek_target_witness:
  "fst (seek_vlc_to_time lab ''s'' 8080 VLC_PASSWORD (85 / 2) 3 net0) = (False, 42)
   \<and> fst (seek_vlc_to_time lab ''t'' 8080 VLC_PASSWORD (85 / 2) 3 net0) = (True, 42)
   \<and> sent (snd (seek_vlc_to_time lab ''s'' 8080 VLC_PASSWORD (- 5) 3 net0))
       = [Seek_cmd ''s'' 8080 0]"
  using seek_target [of lab "''s''" 8080 VLC_PASSWORD "85 / 2" 3 net0]
    seek_target [of lab "''t''" 8080 VLC_PASSWORD "85 / 2" 3 net0]
    seek_target [of lab "''s''" 8080 VLC_PASSWORD "- 5" 3 net0]
  by (simp add: prod_eq_iff lab_def net0_def)

text \<open>
  C9. The result of \<^verbatim>\<open>seek_vlc_to_time\<close>, and the state it leaves, do not depend on the
  \<^verbatim>\<open>delta\<close> argument: the target is computed from the time argument alone.
\<close>

theorem seek_ignores_delta:
  "seek_vlc_to_time E host port password t delta1 s
     = seek_vlc_to_time E host port password t delta2 s
   \<and> snd (fst (seek_vlc_to_time E host port password t delta1 s)) = py_int (max t 0)"
  by (simp add: seek_vlc_to_time_def Let_def split: prod.splits)

section \<open>Polling and delay detection\<close>

lemma parse_hosts_length: "parse_hosts E hs = Inr ps \<Longrightarrow> length ps = length hs"
  by (induction hs arbitrary: ps) (auto split: sum.splits)

lemma parse_plain: "CHR '':'' \<notin> set h \<Longrightarrow> parse_host_port E h = Inr (h, 8080)"
  by (simp add: parse_host_port_def DEFAULT_PORT_def)

lemma get_vlc_status_sent:
  "sent (snd (get_vlc_status E h p pw s)) = sent s @ [Status_query h p]"
  by (simp add: get_vlc_status_def split: prod.splits)

lemma timed_status_request_eq:
  "fst (fst (timed_status_request E h p pw s)) = fst (get_vlc_status E h p pw s)
   \<and> snd (timed_status_request E h p pw s) = snd (get_vlc_status E h p pw s)"
  by (simp add: timed_status_request_def Let_def split: prod.splits)

lemma run_pool_step:
  assumes "k = pool_pick E (world s) (Suc (length js)) mod Suc (length js)"
    and "i = (j # js) ! k"
  shows "run_pool E parsed (j # js) results s =
           run_pool E parsed (take k (j # js) @ drop (Suc k) (j # js))
             (results[i := fst (timed_status_request E (fst (parsed ! i)) (snd (parsed ! i)) VLC_PASSWORD s)])
             (snd (timed_status_request E (fst (parsed ! i)) (snd (parsed ! i)) VLC_PASSWORD s))"
  using assms by (simp add: Let_def split: prod.splits)

lemma mset_without_nth:
  assumes "k < length xs"
  shows "mset (map f xs) = add_mset (f (xs ! k)) (mset (map f (take k xs @ drop (Suc k) xs)))"
proof -
  have "map f xs = map f (take k xs @ xs ! k # drop (Suc k) xs)"
    using id_take_nth_drop [OF assms] by simp
  then have "mset (map f xs) = mset (map f (take k xs @ xs ! k # drop (Suc k) xs))"
    by (rule arg_cong)
  then show ?thesis by simp
qed

lemma run_pool_sent:
  "\<exists>tail. sent (snd (run_pool E parsed pending results s)) = sent s @ tail
     \<and> mset tail = mset (map (\<lambda>i. Status_query (fst (parsed ! i)) (snd (parsed ! i))) pending)"
proof (induction pending arbitrary: results s rule: length_induct)
  case (1 pending)
  let ?q = "\<lambda>i. Status_query (fst (parsed ! i)) (snd (parsed ! i))"
  show ?case
  proof (cases pending)
    case Nil
    then show ?thesis by simp
  next
    case (Cons j js)
    define k where "k = pool_pick E (world s) (Suc (length js)) mod Suc (length js)"
    define i where "i = (j # js) ! k"
    define rest where "rest = take k (j # js) @ drop (Suc k) (j # js)"
    let ?t = "timed_status_request E (fst (parsed ! i)) (snd (parsed ! i)) VLC_PASSWORD s"
    have k: "k < length (j # js)" by (simp add: k_def)
    then have shorter: "length rest < length pending"
      unfolding rest_def Cons by simp
    have step: "run_pool E parsed pending results s = run_pool E parsed rest (results[i := fst ?t]) (snd ?t)"
      unfolding Cons rest_def by (rule run_pool_step [OF k_def i_def])
    have sent_t: "sent (snd ?t) = sent s @ [?q i]"
      using timed_status_request_eq [of E "fst (parsed ! i)" "snd (parsed ! i)" VLC_PASSWORD s]
      by (simp add: get_vlc_status_sent)
    from "1.IH" shorter obtain tail where
      tail: "sent (snd (run_pool E parsed rest (results[i := fst ?t]) (snd ?t))) = sent (snd ?t) @ tail"
        "mset tail = mset (map ?q rest)"
      by blast
    have "mset (map ?q pending) = add_mset (?q i) (mset (map ?q rest))"
      unfolding Cons rest_def i_def by (rule mset_without_nth [OF k])
    with tail step sent_t show ?thesis
      by (intro exI [of _ "?q i # tail"]) simp
  qed
qed

lemma run_pool_length:
  "length (fst (run_pool E parsed pending results s)) = length results"
proof (induction pending arbitrary: results s rule: length_induct)
  case (1 pending)
  show ?case
  proof (cases pending)
    case Nil
    then show ?thesis by simp
  next
    case (Cons j js)
    define k where "k = pool_pick E (world s) (Suc (length js)) mod Suc (length js)"
    define i where "i = (j # js) ! k"
    have "k < length (j # js)" by (simp add: k_def)
    then have "length (take k (j # js) @ drop (Suc k) (j # js)) < length pending"
      unfolding Cons by simp
    with "1.IH" show ?thesis
      unfolding Cons run_pool_step [OF k_def i_def] by simp
  qed
qed

lemma queries_by_index:
  "map (\<lambda>i. Status_query (fst (parsed ! i)) (snd (parsed ! i))) [0..<length parsed] = queries parsed"
  unfolding queries_def by (rule nth_equalityI) (simp_all add: case_prod_beta)

lemma poll_all_sent:
  "\<exists>tail. sent (snd (poll_all E parsed s)) = sent s @ tail \<and> mset tail = mset (queries parsed)"
  using run_pool_sent [where E = E and parsed = parsed and pending = "[0..<length parsed]"
      and results = "replicate (length parsed) (PNone, 0)" and s = s]
  by (simp add: poll_all_def queries_by_index)

lemma poll_all_length: "length (fst (poll_all E parsed s)) = length parsed"
  by (simp add: poll_all_def run_pool_length)

lemma slave_delays_length:
  "slave_delays E st mt is ds = Inr ds' \<Longrightarrow> length ds' = length ds"
  by (induction "is" arbitrary: ds) (auto split: sum.splits option.splits simp: Let_def)

lemma slave_delays_other:
  "slave_delays E st mt is ds = Inr ds' \<Longrightarrow> i \<notin> set is \<Longrightarrow> ds' ! i = ds ! i"
  by (induction "is" arbitrary: ds) (auto split: sum.splits option.splits simp: Let_def)

lemma slave_delays_nth:
  "slave_delays E st mt is ds = Inr ds' \<Longrightarrow> distinct is \<Longrightarrow> i \<in> set is \<Longrightarrow> i < length ds \<Longrightarrow>
   ds' ! i = (case extract_precise_time E (st ! i) of Inr (Some x) \<Rightarrow> mt - x | _ \<Rightarrow> ds ! i)"
proof (induction "is" arbitrary: ds)
  case Nil
  then show ?case by simp
next
  case (Cons j js)
  show ?case
  proof (cases "i = j")
    case True
    with Cons.prems have "i \<notin> set js" by simp
    with Cons.prems True show ?thesis
      by (auto split: sum.splits option.splits simp: Let_def dest!: slave_delays_other [where i = i])
  next
    case False
    with Cons.prems have "i \<in> set js" "distinct js" by simp_all
    with Cons.prems Cons.IH False show ?thesis
      by (auto split: sum.splits option.splits simp: Let_def)
  qed
qed

lemma detect_delays_state:
  assumes "parse_hosts E hosts = Inr parsed" and "hosts \<noteq> []"
  shows "snd (detect_delays E hosts s) = snd (poll_all E parsed s)"
  using assms
  by (auto simp: detect_delays_def Let_def split: prod.splits sum.splits option.splits)

lemma detect_delays_sent:
  assumes "parse_hosts E hosts = Inr parsed" and "hosts \<noteq> []"
  shows "\<exists>tail. sent (snd (detect_delays E hosts s)) = sent s @ tail
           \<and> mset tail = mset (queries parsed)"
  using poll_all_sent [of E parsed s] detect_delays_state [OF assms, of s] by simp

lemma detect_delays_result:
  assumes "detect_delays E hosts s = (Inr (Some (ds, rtt)), s')"
    and "parse_hosts E hosts = Inr parsed"
    and "poll_all E parsed s = (results, s1)"
  shows "s' = s1 \<and> length ds = length parsed \<and> hosts \<noteq> []
         \<and> (\<exists>mt. extract_precise_time E (fst (results ! 0)) = Inr (Some mt)
              \<and> ds ! 0 = 0
              \<and> (\<forall>i. 0 < i \<and> i < length parsed \<longrightarrow>
                     ds ! i = (case extract_precise_time E (fst (results ! i)) of
                                 Inr (Some x) \<Rightarrow> mt - x | _ \<Rightarrow> 0)))"
proof -
  let ?n = "length parsed"
  let ?st = "map fst results"
  have ne: "hosts \<noteq> []" using assms(1) by (auto simp: detect_delays_def)
  then have n: "0 < ?n" using parse_hosts_length [OF assms(2)] by simp
  have len: "length results = ?n" using poll_all_length [of E parsed s] assms(3) by simp
  from assms ne obtain mt where
    mt: "extract_precise_time E (?st ! 0) = Inr (Some mt)" and
    sd: "slave_delays E ?st mt [1..<?n] (replicate ?n 0) = Inr ds" and
    s': "s' = s1"
    by (auto simp: detect_delays_def Let_def split: sum.splits option.splits)
  have l: "length ds = ?n" using slave_delays_length [OF sd] by simp
  have z: "ds ! 0 = 0" using slave_delays_other [OF sd, of 0] n by simp
  have "ds ! i = (case extract_precise_time E (fst (results ! i)) of
                    Inr (Some x) \<Rightarrow> mt - x | _ \<Rightarrow> 0)" if "0 < i" "i < ?n" for i
    using slave_delays_nth [OF sd, of i] that len by (simp split: sum.splits option.splits)
  with mt s' l z ne n len show ?thesis by auto
qed

lemma slave_delays_total:
  "list_all (\<lambda>i. \<not> isl (extract_precise_time E (st ! i))) is \<Longrightarrow>
   \<exists>ds'. slave_delays E st mt is ds = Inr ds'"
proof (induction "is" arbitrary: ds)
  case Nil
  show ?case by simp
next
  case (Cons i "is")
  then show ?case
    by (cases "extract_precise_time E (st ! i)") (auto simp: Let_def split: option.splits)
qed

lemma detect_delays_total:
  assumes "parse_hosts E hosts = Inr parsed" and "hosts \<noteq> []"
    and "poll_all E parsed s = (results, s1)"
    and "list_all (\<lambda>r. \<not> isl (extract_precise_time E (fst r))) results"
    and "extract_precise_time E (fst (results ! 0)) = Inr (Some mt)"
  shows "\<exists>ds. detect_delays E hosts s = (Inr (Some (ds, map snd results)), s1)"
proof -
  let ?n = "length parsed"
  let ?st = "map fst results"
  have len: "length results = ?n" using poll_all_length [of E parsed s] assms(3) by simp
  have n: "0 < ?n" using parse_hosts_length [OF assms(1)] assms(2) by simp
  have "list_all (\<lambda>i. \<not> isl (extract_precise_time E (?st ! i))) [1..<?n]"
    using assms(4) len by (auto simp: list_all_iff)
  from slave_delays_total [OF this, of mt "replicate ?n 0"]
  obtain ds where "slave_delays E ?st mt [1..<?n] (replicate ?n 0) = Inr ds" by blast
  moreover have "extract_precise_time E (?st ! 0) = Inr (Some mt)"
    using assms(5) n len by simp
  ultimately show ?thesis
    using assms(1,2,3) by (simp add: detect_delays_def Let_def)
qed

text \<open>
  C7. When no polled status makes the extraction raise and both the master's and slave
  \<open>i\<close>'s playback times are defined, \<^verbatim>\<open>detect_delays\<close> returns a drift list whose entry
  \<open>i\<close> is the master's time minus the slave's, with nothing else applied to it; it is
  positive exactly when the slave is behind the master. (Floats are reals here, so the
  subtraction is the exact one.)
\<close>

theorem drift_is_master_minus_slave:
  assumes "parse_hosts E hosts = Inr parsed"
    and "poll_all E parsed s = (results, s')"
    and "list_all (\<lambda>r. \<not> isl (extract_precise_time E (fst r))) results"
    and "extract_precise_time E (fst (results ! 0)) = Inr (Some master_time)"
    and "0 < i" and "i < length parsed"
    and "extract_precise_time E (fst (results ! i)) = Inr (Some slave_time)"
  shows "\<exists>ds. detect_delays E hosts s = (Inr (Some (ds, map snd results)), s')
              \<and> ds ! i = master_time - slave_time
              \<and> (0 < ds ! i) = (slave_time < master_time)"
proof -
  have ne: "hosts \<noteq> []" using assms(1,6) by auto
  from detect_delays_total [OF assms(1) ne assms(2,3,4)]
  obtain ds where d: "detect_delays E hosts s = (Inr (Some (ds, map snd results)), s')" by blast
  from detect_delays_result [OF d assms(1,2)] assms(4,5,6,7)
  have "ds ! i = master_time - slave_time" by auto
  with d show ?thesis by auto
qed

text \<open>The slave \<^verbatim>\<open>t\<close> is at 0.5 of 80 seconds, the master at 42.\<close>

theorem drift_is_master_minus_slave_witness:
  "detect_delays lab [''m'', ''s'', ''t''] net0
     = (Inr (Some ([0, 0, 42 - 40], [0, 0, 0])),
        \<lparr>world = (),
           sent = [Status_query ''m'' 8080, Status_query ''s'' 8080, Status_query ''t'' 8080]\<rparr>)"
proof -
  let ?results = "[(PDict [(''time'', PInt 42)], 0), (PNone, 0),
                   (PDict [(''position'', PFloat (1 / 2)), (''length'', PInt 80)], 0 :: real)]"
  let ?s = "\<lparr>world = (),
              sent = [Status_query ''m'' 8080, Status_query ''s'' 8080, Status_query ''t'' 8080]\<rparr>"
  have p: "parse_hosts lab [''m'', ''s'', ''t''] = Inr [(''m'', 8080), (''s'', 8080), (''t'', 8080)]"
    by (simp add: parse_plain)
  have q: "poll_all lab [(''m'', 8080), (''s'', 8080), (''t'', 8080)] net0 = (?results, ?s)"
    by (simp add: lab_simps)
  have r: "list_all (\<lambda>r. \<not> isl (extract_precise_time lab (fst r))) ?results"
    by (simp add: lab_simps)
  have m: "extract_precise_time lab (fst (?results ! 0)) = Inr (Some 42)"
    by (simp add: lab_simps)
  have i: "0 < (2::nat)" "2 < length [(''m'', 8080 :: int), (''s'', 8080), (''t'', 8080)]"
    by simp_all
  have t: "extract_precise_time lab (fst (?results ! 2)) = Inr (Some 40)"
    by (simp add: lab_simps)
  from drift_is_master_minus_slave [OF p q r m i t]
  obtain ds where d: "detect_delays lab [''m'', ''s'', ''t''] net0 = (Inr (Some (ds, map snd ?results)), ?s)"
    and v: "ds ! 2 = 42 - 40" by blast
  have "fst (detect_delays lab [''m'', ''s'', ''t''] net0) = Inr (Some ([0, 0, 2], [0, 0, 0]))"
    by (simp add: lab_simps)
  with d v show ?thesis by simp
qed

section \<open>The requests of a cycle\<close>

lemma takeWhile_less_upt: "takeWhile (\<lambda>i. i < m) [a..<n] = [a..<min n m]"
proof (cases "n \<le> m")
  case True
  then have "\<forall>x\<in>set [a..<n]. x < m" by auto
  then have "takeWhile (\<lambda>i. i < m) [a..<n] = [a..<n]"
    by (simp only: takeWhile_eq_all_conv)
  with True show ?thesis by (simp add: min_def)
next
  case False
  then have mn: "m < n" "min n m = m" by simp_all
  show ?thesis
  proof (cases "a < m")
    case False
    with mn show ?thesis by (cases "a < n") (simp_all add: upt_conv_Cons)
  next
    case True
    with mn have "[a..<n] = [a..<m] @ m # [Suc m..<n]"
      using upt_add_eq_append [of a m "n - m"] by (simp add: upt_conv_Cons)
    moreover have "takeWhile (\<lambda>i. i < m) ([a..<m] @ m # [Suc m..<n]) =
        [a..<m] @ takeWhile (\<lambda>i. i < m) (m # [Suc m..<n])"
      by (rule takeWhile_append2) simp
    ultimately show ?thesis using mn by simp
  qed
qed

lemma seek_slaves_Cons:
  "seek_slaves E parsed delays thr fr mt (i # is) s =
     (if length delays \<le> i then (Inl IndexError, s)
      else if \<not> fr \<and> \<bar>delays ! i\<bar> < thr then seek_slaves E parsed delays thr fr mt is s
      else seek_slaves E parsed delays thr fr mt is
             (snd (seek_vlc_to_time E (fst (parsed ! i)) (snd (parsed ! i)) VLC_PASSWORD mt
                     (delays ! i) s)))"
  by (simp add: Let_def split: prod.splits)

lemma seek_slaves_sent_first:
  "sent (snd (seek_slaves E parsed delays thr True mt is s)) =
     sent s @ seeks parsed mt (takeWhile (\<lambda>i. i < length delays) is)"
proof (induction "is" arbitrary: s)
  case Nil
  show ?case by (simp add: seeks_def)
next
  case (Cons i "is")
  show ?case
    unfolding seek_slaves_Cons
    by (simp add: Cons.IH seek_vlc_to_time_eq seeks_def not_le)
qed

lemma seek_slaves_sent_later:
  "sent (snd (seek_slaves E parsed delays thr False mt is s)) =
     sent s @ seeks parsed mt
       (filter (\<lambda>i. thr \<le> \<bar>delays ! i\<bar>) (takeWhile (\<lambda>i. i < length delays) is))"
proof (induction "is" arbitrary: s)
  case Nil
  show ?case by (simp add: seeks_def)
next
  case (Cons i "is")
  show ?case
    unfolding seek_slaves_Cons
    by (simp add: Cons.IH seek_vlc_to_time_eq seeks_def not_le not_less)
qed

lemma seek_slaves_sent:
  "sent (snd (seek_slaves E parsed delays thr fr mt is s)) =
     sent s @ seeks parsed mt
       (filter (\<lambda>i. fr \<or> thr \<le> \<bar>delays ! i\<bar>) (takeWhile (\<lambda>i. i < length delays) is))"
  by (cases fr) (simp_all add: seek_slaves_sent_first seek_slaves_sent_later)

lemma seek_slaves_result:
  "fst (seek_slaves E parsed delays thr fr mt is s) =
     (if list_all (\<lambda>i. i < length delays) is then Inr () else Inl IndexError)"
proof (induction "is" arbitrary: s)
  case Nil
  show ?case by simp
next
  case (Cons i "is")
  show ?case
    unfolding seek_slaves_Cons if_distrib [of fst] Cons.IH
    by (simp add: not_le)
qed

lemma slave_indices_ok:
  "list_all (\<lambda>i. i < m) [Suc 0..<n] = (n \<le> max (Suc 0) m)"
proof (cases "n \<le> 1")
  case True
  then show ?thesis by (simp add: list_all_iff)
next
  case False
  then have "n - 1 \<in> set [Suc 0..<n]" by simp
  then have "list_all (\<lambda>i. i < m) [Suc 0..<n] \<Longrightarrow> n - 1 < m"
    unfolding list_all_iff by blast
  moreover have "n \<le> m \<Longrightarrow> list_all (\<lambda>i. i < m) [Suc 0..<n]"
    by (simp add: list_all_iff)
  ultimately show ?thesis using False by auto
qed

lemma sync_once_sent:
  assumes "parse_hosts E hosts = Inr parsed"
    and "parsed = (mh, mp) # rest"
    and "extract_precise_time E (fst (get_vlc_status E mh mp VLC_PASSWORD s)) = Inr (Some mt)"
  shows "\<exists>tail. sent (snd (sync_once E hosts delays thr s)) =
           sent s @ [Status_query mh mp]
             @ seeks parsed mt
                 (filter (\<lambda>i. first_run delays \<or> thr \<le> \<bar>delays ! i\<bar>)
                    [1..<min (length parsed) (length delays)])
             @ tail
           \<and> (if length parsed \<le> max 1 (length delays) then mset tail = mset (queries parsed)
                else tail = [])"
proof -
  obtain status s1 where g: "get_vlc_status E mh mp VLC_PASSWORD s = (status, s1)"
    by (cases "get_vlc_status E mh mp VLC_PASSWORD s")
  then have s1: "sent s1 = sent s @ [Status_query mh mp]"
    using get_vlc_status_sent [of E mh mp VLC_PASSWORD s] by simp
  have ex: "extract_precise_time E status = Inr (Some mt)" using assms(3) g by simp
  let ?run = "seek_slaves E parsed delays thr (first_run delays) mt [1..<length parsed] s1"
  obtain r s2 where k: "?run = (r, s2)" by (cases ?run)
  have s2: "sent s2 = sent s1 @ seeks parsed mt
                 (filter (\<lambda>i. first_run delays \<or> thr \<le> \<bar>delays ! i\<bar>)
                    [1..<min (length parsed) (length delays)])"
    using seek_slaves_sent [of E parsed delays thr "first_run delays" mt "[1..<length parsed]" s1] k
    by (simp add: takeWhile_less_upt)
  have r: "r = (if length parsed \<le> max 1 (length delays) then Inr () else Inl IndexError)"
    using seek_slaves_result [of E parsed delays thr "first_run delays" mt "[1..<length parsed]" s1] k
    by (simp add: slave_indices_ok)
  have ne: "hosts \<noteq> []" using assms(1,2) by auto
  show ?thesis
  proof (cases "length parsed \<le> max 1 (length delays)")
    case False
    with r have "sync_once E hosts delays thr s = (Inl IndexError, s2)"
      using assms(1,2) g ex k by (simp add: sync_once_def)
    with False s1 s2 show ?thesis by simp
  next
    case True
    with r have "snd (sync_once E hosts delays thr s) = snd (detect_delays E hosts s2)"
      using assms(1,2) g ex k
      by (simp add: sync_once_def split: prod.splits sum.splits option.splits)
    moreover from detect_delays_sent [OF assms(1) ne, of s2]
    obtain tail where "sent (snd (detect_delays E hosts s2)) = sent s2 @ tail"
      and "mset tail = mset (queries parsed)" by blast
    ultimately show ?thesis using True s1 s2 by simp
  qed
qed

lemma sync_once_master_absent:
  assumes "parse_hosts E hosts = Inr ((mh, mp) # rest)"
    and "extract_precise_time E (fst (get_vlc_status E mh mp VLC_PASSWORD s)) = Inr None"
  shows "sync_once E hosts delays thr s = (Inr delays, snd (get_vlc_status E mh mp VLC_PASSWORD s))"
  using assms by (cases "get_vlc_status E mh mp VLC_PASSWORD s") (simp add: sync_once_def)

lemma sync_once_master_raises:
  assumes "parse_hosts E hosts = Inr ((mh, mp) # rest)"
    and "extract_precise_time E (fst (get_vlc_status E mh mp VLC_PASSWORD s)) = Inl e"
  shows "sync_once E hosts delays thr s = (Inl e, snd (get_vlc_status E mh mp VLC_PASSWORD s))"
  using assms by (cases "get_vlc_status E mh mp VLC_PASSWORD s") (simp add: sync_once_def)

text \<open>
  C4. A master whose status is missing, or is an object with no time in it, gives
  \<^verbatim>\<open>master_time is None\<close>: the cycle then returns the drift state it was given and sends no
  seek (\<open>sync_once_master_absent\<close>; the masters \<^verbatim>\<open>s\<close> and \<^verbatim>\<open>x\<close> below). A master that answers
  JSON which is not an object has no playback time to extract either, but there
  \<^verbatim>\<open>status.get\<close> raises \<^verbatim>\<open>AttributeError\<close>, which nothing catches: the cycle over the master
  \<^verbatim>\<open>j\<close> sends no seek and returns no drift state at all, and the loop of \<^verbatim>\<open>main\<close> ends with
  the exception.
\<close>

theorem master_non_object_body_raises:
  "fst (get_vlc_status lab ''j'' 8080 VLC_PASSWORD net0) = PList [PInt 1, PInt 2]
   \<and> extract_precise_time lab (PList [PInt 1, PInt 2]) = Inl AttributeError
   \<and> sync_once lab [''j'', ''s'', ''t''] [0, 3 / 10, 5] 1 net0
       = (Inl AttributeError, \<lparr>world = (), sent = [Status_query ''j'' 8080]\<rparr>)
   \<and> run_cycles lab [''j'', ''s'', ''t''] 1 3 [0, 3 / 10, 5] net0
       = (Inl AttributeError, \<lparr>world = (), sent = [Status_query ''j'' 8080]\<rparr>)
   \<and> sync_once lab [''s'', ''t''] [0, 5] 1 net0
       = (Inr [0, 5], \<lparr>world = (), sent = [Status_query ''s'' 8080]\<rparr>)
   \<and> sync_once lab [''x'', ''t''] [0, 5] 1 net0
       = (Inr [0, 5], \<lparr>world = (), sent = [Status_query ''x'' 8080]\<rparr>)"
  by (simp add: lab_simps numeral_3_eq_3)

text \<open>
  C3. In a cycle that has the master's time, the seeks sent are exactly those to the slave
  indices \<open>i\<close> that have a drift \<open>delays ! i\<close> and for which \<open>first_run delays\<close> holds or
  \<open>thr \<le> \<bar>delays ! i\<bar>\<close>, in index order, right after the master's query; what follows them
  is the round of status queries that re-measures, one per host in some order, and no
  seek. \<open>first_run\<close> holds if and only if every drift is below \<open>10\<^sup>-\<^sup>6\<close> in absolute value, so
  an all-zero state is a first run whatever the threshold.
\<close>

theorem correction_policy:
  assumes "parse_hosts E hosts = Inr ((mh, mp) # rest)"
    and "extract_precise_time E (fst (get_vlc_status E mh mp VLC_PASSWORD s)) = Inr (Some mt)"
  shows "(\<exists>tail. sent (snd (sync_once E hosts delays thr s)) =
            sent s @ [Status_query mh mp]
              @ seeks ((mh, mp) # rest) mt
                  (filter (\<lambda>i. first_run delays \<or> thr \<le> \<bar>delays ! i\<bar>)
                     [1..<min (length hosts) (length delays)])
              @ tail
            \<and> (if length hosts \<le> max 1 (length delays)
                 then mset tail = mset (queries ((mh, mp) # rest))
                 else tail = []))
         \<and> first_run delays = (\<forall>d\<in>set delays. \<bar>d\<bar> < 1 / 1000000)
         \<and> first_run (replicate n 0)"
  using sync_once_sent [OF assms(1) refl assms(2), of delays thr] parse_hosts_length [OF assms(1)]
  by (simp add: first_run_def list_all_iff)

text \<open>
  The specification's examples with the slave \<^verbatim>\<open>t\<close>: an all-zero state with threshold 1000
  is corrected, the state \<open>[0, 0.3]\<close> is skipped at threshold \<open>1\<close> and corrected at \<open>0.1\<close>.
  A drift equal to the threshold is corrected too.
\<close>

theorem correction_policy_witness:
  "sent (snd (sync_once lab [''m'', ''t''] [0, 0] 1000 net0))
     = [Status_query ''m'' 8080, Seek_cmd ''t'' 8080 42, Status_query ''m'' 8080, Status_query ''t'' 8080]
   \<and> sent (snd (sync_once lab [''m'', ''t''] [0, 3 / 10] 1 net0))
     = [Status_query ''m'' 8080, Status_query ''m'' 8080, Status_query ''t'' 8080]
   \<and> sent (snd (sync_once lab [''m'', ''t''] [0, 3 / 10] (1 / 10) net0))
     = [Status_query ''m'' 8080, Seek_cmd ''t'' 8080 42, Status_query ''m'' 8080, Status_query ''t'' 8080]
   \<and> sent (snd (sync_once lab [''m'', ''t''] [0, - 1] 1 net0))
     = [Status_query ''m'' 8080, Seek_cmd ''t'' 8080 42, Status_query ''m'' 8080, Status_query ''t'' 8080]"
proof -
  have p: "parse_hosts lab [''m'', ''t''] = Inr ((''m'', 8080) # [(''t'', 8080)])"
    by (simp add: parse_plain)
  have m: "extract_precise_time lab (fst (get_vlc_status lab ''m'' 8080 VLC_PASSWORD net0))
             = Inr (Some 42)"
    by (simp add: lab_simps)
  show ?thesis
    using correction_policy [OF p m, of "[0, 0]" 1000]
      correction_policy [OF p m, of "[0, 3 / 10]" 1]
      correction_policy [OF p m, of "[0, 3 / 10]" "1 / 10"]
      correction_policy [OF p m, of "[0, - 1]" 1]
    by (simp add: lab_simps)
qed

text \<open>
  C2, as stated, fails: a first cycle over \<^verbatim>\<open>m\<close> and \<^verbatim>\<open>s\<close> starts with a status query to the
  master alone and sends the seek to \<^verbatim>\<open>s\<close> before \<^verbatim>\<open>s\<close> has been asked for its status.
\<close>

theorem seek_precedes_slave_poll_counterexample:
  "sent (snd (sync_once lab [''m'', ''s''] (initial_delays [''m'', ''s'']) 1 net0))
     = [Status_query ''m'' 8080, Seek_cmd ''s'' 8080 42, Status_query ''m'' 8080,
        Status_query ''s'' 8080]"
  by (simp add: lab_simps)

text \<open>
  C2, amended. A cycle begins with one status query, to the master alone. When that gives
  a master time, the seeks decided from the prior drift state are sent next, before any
  slave is queried. Only after them does the cycle issue one status query per endpoint,
  master and every slave, in parallel: exactly one to each, in no fixed order. The drift
  is evaluated when all of them have completed: \<^verbatim>\<open>detect_delays\<close> ends in the state the pool
  ends in, with no further request. A cycle whose first query gives no master time sends
  nothing else.
\<close>

theorem cycle_request_order:
  assumes "parse_hosts E hosts = Inr ((mh, mp) # rest)"
    and "length hosts \<le> length delays"
  shows "(case extract_precise_time E (fst (get_vlc_status E mh mp VLC_PASSWORD s)) of
            Inl e \<Rightarrow>
              sent (snd (sync_once E hosts delays thr s)) = sent s @ [Status_query mh mp]
          | Inr None \<Rightarrow>
              sent (snd (sync_once E hosts delays thr s)) = sent s @ [Status_query mh mp]
          | Inr (Some mt) \<Rightarrow>
              (\<exists>tail. sent (snd (sync_once E hosts delays thr s)) =
                 sent s @ [Status_query mh mp]
                   @ seeks ((mh, mp) # rest) mt
                       (filter (\<lambda>i. first_run delays \<or> thr \<le> \<bar>delays ! i\<bar>) [1..<length hosts])
                   @ tail
                 \<and> mset tail = mset (queries ((mh, mp) # rest))))
         \<and> (\<forall>s'. snd (detect_delays E hosts s') = snd (poll_all E ((mh, mp) # rest) s'))"
proof -
  let ?order =
    "case extract_precise_time E (fst (get_vlc_status E mh mp VLC_PASSWORD s)) of
       Inl e \<Rightarrow>
         sent (snd (sync_once E hosts delays thr s)) = sent s @ [Status_query mh mp]
     | Inr None \<Rightarrow>
         sent (snd (sync_once E hosts delays thr s)) = sent s @ [Status_query mh mp]
     | Inr (Some mt) \<Rightarrow>
         (\<exists>tail. sent (snd (sync_once E hosts delays thr s)) =
            sent s @ [Status_query mh mp]
              @ seeks ((mh, mp) # rest) mt
                  (filter (\<lambda>i. first_run delays \<or> thr \<le> \<bar>delays ! i\<bar>) [1..<length hosts])
              @ tail
            \<and> mset tail = mset (queries ((mh, mp) # rest)))"
  have order: ?order
  proof (cases "extract_precise_time E (fst (get_vlc_status E mh mp VLC_PASSWORD s))")
    case (Inl e)
    with sync_once_master_raises [OF assms(1), of s e delays thr] show ?thesis
      by (simp add: get_vlc_status_sent)
  next
    case (Inr t)
    show ?thesis
    proof (cases t)
      case None
      with Inr sync_once_master_absent [OF assms(1), of s delays thr] show ?thesis
        by (simp add: get_vlc_status_sent)
    next
      case (Some mt)
      with Inr sync_once_sent [OF assms(1) refl, of s mt delays thr] assms(2)
        parse_hosts_length [OF assms(1)]
      show ?thesis by (simp add: min_def max_def)
    qed
  qed
  have "hosts \<noteq> []" using assms(1) by auto
  with assms(1) have "snd (detect_delays E hosts s') = snd (poll_all E ((mh, mp) # rest) s')" for s'
    by (rule detect_delays_state)
  with order show ?thesis by blast
qed

text \<open>
  The pool of \<open>lab_late\<close> sends the last request first: the seek to \<^verbatim>\<open>t\<close> still comes
  before every slave's query, and the three queries of the round go out in the order
  \<^verbatim>\<open>t\<close>, \<^verbatim>\<open>s\<close>, \<^verbatim>\<open>m\<close>.
\<close>

theorem cycle_request_order_witness:
  "sent (snd (sync_once lab_late [''m'', ''s'', ''t''] [0, 3 / 10, 5] 1 net0))
     = [Status_query ''m'' 8080, Seek_cmd ''t'' 8080 42,
        Status_query ''t'' 8080, Status_query ''s'' 8080, Status_query ''m'' 8080]
   \<and> mset [Status_query ''t'' 8080, Status_query ''s'' 8080, Status_query ''m'' 8080]
       = mset (queries [(''m'', 8080), (''s'', 8080), (''t'', 8080)])"
proof -
  have p: "parse_hosts lab_late [''m'', ''s'', ''t'']
             = Inr ((''m'', 8080) # [(''s'', 8080), (''t'', 8080)])"
    by (simp add: parse_plain)
  have l: "length [''m'', ''s'', ''t''] \<le> length [0, 3 / 10, 5 :: real]"
    by simp
  have m: "extract_precise_time lab_late (fst (get_vlc_status lab_late ''m'' 8080 VLC_PASSWORD net0))
             = Inr (Some 42)"
    by (simp add: lab_simps)
  have run: "sent (snd (sync_once lab_late [''m'', ''s'', ''t''] [0, 3 / 10, 5] 1 net0))
     = [Status_query ''m'' 8080, Seek_cmd ''t'' 8080 42,
        Status_query ''t'' 8080, Status_query ''s'' 8080, Status_query ''m'' 8080]"
    by (simp add: lab_simps)
  from cycle_request_order [OF p l, where s = net0 and thr = 1] m
  obtain tail where
    "sent (snd (sync_once lab_late [''m'', ''s'', ''t''] [0, 3 / 10, 5] 1 net0)) =
       sent net0 @ [Status_query ''m'' 8080]
         @ seeks [(''m'', 8080), (''s'', 8080), (''t'', 8080)] 42
             (filter (\<lambda>i. first_run [0, 3 / 10, 5] \<or> 1 \<le> \<bar>[0, 3 / 10, 5 :: real] ! i\<bar>)
                [1..<length [''m'', ''s'', ''t'']])
         @ tail"
    and t: "mset tail = mset (queries [(''m'', 8080), (''s'', 8080), (''t'', 8080)])"
    by auto
  then have "tail = [Status_query ''t'' 8080, Status_query ''s'' 8080, Status_query ''m'' 8080]"
    using run by (simp add: first_run_def seeks_def net0_def upt_conv_Cons)
  with t run show ?thesis by simp
qed

section \<open>A slave that does not answer\<close>

text \<open>
  C1, as stated, fails: \<^verbatim>\<open>s\<close> never answers a status query, and the first cycle over
  \<^verbatim>\<open>m\<close>, \<^verbatim>\<open>s\<close> and \<^verbatim>\<open>t\<close> still sends it a seek; its drift afterwards is \<open>0\<close>.
\<close>

theorem failed_slave_counterexample:
  "fst (get_vlc_status lab ''s'' 8080 VLC_PASSWORD net0) = PNone
   \<and> first_run (initial_delays [''m'', ''s'', ''t''])
   \<and> sync_once lab [''m'', ''s'', ''t''] (initial_delays [''m'', ''s'', ''t'']) 1 net0
       = (Inr [0, 0, 2],
          \<lparr>world = (),
             sent = [Status_query ''m'' 8080, Seek_cmd ''s'' 8080 42, Seek_cmd ''t'' 8080 42,
                     Status_query ''m'' 8080, Status_query ''s'' 8080, Status_query ''t'' 8080]\<rparr>)"
  by (simp add: lab_simps)

text \<open>
  C1, amended. A slave whose poll failed has drift \<open>0\<close> in the drift list that
  \<^verbatim>\<open>detect_delays\<close> returns. It is not left out of the corrections of a cycle: those are
  decided from the prior drift state alone, so in a first run that has the master's time a
  seek to the master's time is sent to every slave with a drift entry, this one included.
\<close>

theorem failed_slave_zero_drift_still_seeked:
  assumes "parse_hosts E hosts = Inr parsed"
    and "0 < i" and "i < length parsed"
  shows "(\<forall>s results s' ds rtt s''.
            poll_all E parsed s = (results, s') \<and> fst (results ! i) = PNone
              \<and> detect_delays E hosts s = (Inr (Some (ds, rtt)), s'')
            \<longrightarrow> ds ! i = 0)
         \<and> (\<forall>delays thr s mt.
               first_run delays \<and> i < length delays
                 \<and> extract_precise_time E
                       (fst (get_vlc_status E (fst (parsed ! 0)) (snd (parsed ! 0)) VLC_PASSWORD s))
                     = Inr (Some mt)
               \<longrightarrow> Seek_cmd (fst (parsed ! i)) (snd (parsed ! i)) (max \<lfloor>mt\<rfloor> 0)
                     \<in> set (sent (snd (sync_once E hosts delays thr s))))"
proof (intro conjI allI impI)
  fix s results s' ds rtt s''
  assume a: "poll_all E parsed s = (results, s') \<and> fst (results ! i) = PNone
      \<and> detect_delays E hosts s = (Inr (Some (ds, rtt)), s'')"
  then have d: "detect_delays E hosts s = (Inr (Some (ds, rtt)), s'')"
    and p: "poll_all E parsed s = (results, s')"
    and f: "fst (results ! i) = PNone" by simp_all
  have "extract_precise_time E (fst (results ! i)) = Inr None"
    using f by (simp add: extract_precise_time_def)
  with detect_delays_result [OF d assms(1) p] assms(2,3) show "ds ! i = 0" by auto
next
  fix delays :: "real list" and thr :: real and s :: "'a net" and mt :: real
  assume a: "first_run delays \<and> i < length delays
      \<and> extract_precise_time E
            (fst (get_vlc_status E (fst (parsed ! 0)) (snd (parsed ! 0)) VLC_PASSWORD s))
          = Inr (Some mt)"
  obtain mh mp rest where c: "parsed = (mh, mp) # rest"
    using assms(3) by (cases parsed) auto
  have m: "extract_precise_time E (fst (get_vlc_status E mh mp VLC_PASSWORD s)) = Inr (Some mt)"
    using a c by simp
  have "i \<in> set (filter (\<lambda>i. first_run delays \<or> thr \<le> \<bar>delays ! i\<bar>)
                    [1..<min (length parsed) (length delays)])"
    using a assms(2,3) by simp
  then have "Seek_cmd (fst (parsed ! i)) (snd (parsed ! i)) (max \<lfloor>mt\<rfloor> 0)
      \<in> set (seeks parsed mt (filter (\<lambda>i. first_run delays \<or> thr \<le> \<bar>delays ! i\<bar>)
                    [1..<min (length parsed) (length delays)]))"
    unfolding seeks_def set_map by (rule imageI)
  then show "Seek_cmd (fst (parsed ! i)) (snd (parsed ! i)) (max \<lfloor>mt\<rfloor> 0)
      \<in> set (sent (snd (sync_once E hosts delays thr s)))"
    using sync_once_sent [OF assms(1) c m, of delays thr] by auto
qed

theorem failed_slave_zero_drift_still_seeked_witness:
  "fst (fst (poll_all lab [(''m'', 8080), (''s'', 8080)] net0) ! 1) = PNone
   \<and> fst (detect_delays lab [''m'', ''s''] net0) = Inr (Some ([0, 0], [0, 0]))
   \<and> Seek_cmd ''s'' 8080 42 \<in> set (sent (snd (sync_once lab [''m'', ''s''] [0, 0] 1 net0)))"
proof -
  let ?parsed = "[(''m'', 8080 :: int), (''s'', 8080)]"
  let ?results = "[(PDict [(''time'', PInt 42)], 0 :: real), (PNone, 0)]"
  let ?s = "\<lparr>world = (), sent = [Status_query ''m'' 8080, Status_query ''s'' 8080]\<rparr>"
  have p: "parse_hosts lab [''m'', ''s''] = Inr ?parsed"
    by (simp add: parse_plain)
  have i: "0 < (1::nat)" "1 < length ?parsed"
    by simp_all
  note both = failed_slave_zero_drift_still_seeked [OF p i]
  have q: "poll_all lab ?parsed net0 = (?results, ?s)"
    by (simp add: lab_simps)
  have f: "fst (?results ! 1) = PNone"
    by simp
  have d: "detect_delays lab [''m'', ''s''] net0 = (Inr (Some ([0, 0], [0, 0])), ?s)"
    by (simp add: lab_simps)
  have z: "[0, 0 :: real] ! 1 = 0"
    using both [THEN conjunct1, rule_format, of net0 ?results ?s "[0, 0]" "[0, 0]" ?s] q f d
    by blast
  have fr: "first_run [0, 0]" "1 < length [0, 0 :: real]"
    by (simp_all add: first_run_def)
  have m: "extract_precise_time lab
             (fst (get_vlc_status lab (fst (?parsed ! 0)) (snd (?parsed ! 0)) VLC_PASSWORD net0))
           = Inr (Some 42)"
    by (simp add: lab_simps)
  have "Seek_cmd (fst (?parsed ! 1)) (snd (?parsed ! 1)) (max \<lfloor>42 :: real\<rfloor> 0)
          \<in> set (sent (snd (sync_once lab [''m'', ''s''] [0, 0] 1 net0)))"
    using both [THEN conjunct2, rule_format, of "[0, 0]" net0 42 1] fr m by blast
  with q d show ?thesis by simp
qed

section \<open>The drift state between cycles\<close>

lemma sync_once_preserves:
  assumes "drift_state_ok hosts delays"
    and "sync_once E hosts delays thr s = (Inr ds, s')"
  shows "drift_state_ok hosts ds"
proof (cases "ds = delays")
  case True
  with assms(1) show ?thesis by simp
next
  case False
  from assms(2) obtain parsed where p: "parse_hosts E hosts = Inr parsed"
    by (cases "parse_hosts E hosts") (auto simp: sync_once_def)
  from assms(2) False p obtain s2 rtt where d: "detect_delays E hosts s2 = (Inr (Some (ds, rtt)), s')"
    by (auto simp: sync_once_def split: list.splits prod.splits sum.splits option.splits)
  obtain results s3 where q: "poll_all E parsed s2 = (results, s3)"
    by (cases "poll_all E parsed s2")
  from detect_delays_result [OF d p q] parse_hosts_length [OF p]
  have "length ds = length hosts" "ds ! 0 = 0" "hosts \<noteq> []" by auto
  then show ?thesis by (cases ds) (auto simp: drift_state_ok_def)
qed

lemma run_cycles_preserves:
  "drift_state_ok hosts delays \<Longrightarrow> run_cycles E hosts thr n delays s = (Inr ds, s') \<Longrightarrow>
   drift_state_ok hosts ds"
proof (induction n arbitrary: delays s)
  case 0
  then show ?case by simp
next
  case (Suc n)
  obtain r s1 where c: "sync_once E hosts delays thr s = (r, s1)"
    by (cases "sync_once E hosts delays thr s")
  with Suc.prems(2) obtain d1 where r: "r = Inr d1" by (cases r) auto
  with c Suc.prems(1) have "drift_state_ok hosts d1" by (auto dest: sync_once_preserves)
  moreover have "run_cycles E hosts thr n d1 s1 = (Inr ds, s')"
    using Suc.prems(2) c r by simp
  ultimately show ?case by (rule Suc.IH)
qed

lemma initial_delays_ok: "drift_state_ok hosts (initial_delays hosts)"
  by (cases hosts) (simp_all add: drift_state_ok_def initial_delays_def)

text \<open>
  C8. The drift state is as long as the host list and has \<open>0\<close> in the master's slot: this
  holds of the initial state of \<^verbatim>\<open>main\<close>, every cycle that returns preserves it, and so it
  holds after any number of cycles of the loop.
\<close>

theorem drift_state_invariant:
  "drift_state_ok hosts (initial_delays hosts)
   \<and> (\<forall>delays thr s ds s'.
         drift_state_ok hosts delays \<and> sync_once E hosts delays thr s = (Inr ds, s')
         \<longrightarrow> drift_state_ok hosts ds)
   \<and> (\<forall>n thr s ds s'.
         run_cycles E hosts thr n (initial_delays hosts) s = (Inr ds, s')
         \<longrightarrow> drift_state_ok hosts ds)"
  using initial_delays_ok sync_once_preserves run_cycles_preserves by blast

text \<open>Two cycles over \<^verbatim>\<open>m\<close>, \<^verbatim>\<open>s\<close> and \<^verbatim>\<open>t\<close> from the initial state.\<close>

theorem drift_state_invariant_witness:
  "drift_state_ok [''m'', ''s'', ''t''] (initial_delays [''m'', ''s'', ''t''])
   \<and> fst (run_cycles lab [''m'', ''s'', ''t''] 1 2 (initial_delays [''m'', ''s'', ''t'']) net0)
       = Inr [0, 0, 2]
   \<and> drift_state_ok [''m'', ''s'', ''t''] [0, 0, 2]"
proof -
  let ?hs = "[''m'', ''s'', ''t'']"
  obtain s' where r: "run_cycles lab ?hs 1 2 (initial_delays ?hs) net0 = (Inr [0, 0, 2], s')"
    by (simp add: lab_simps numeral_2_eq_2)
  from drift_state_invariant [of ?hs lab, THEN conjunct2, THEN conjunct2, rule_format, OF r]
    drift_state_invariant [of ?hs lab, THEN conjunct1] r
  show ?thesis by simp
qed

end
